theory Spec2Isabelle
  imports Complex_Main "HOL-Library.AList"
begin

section \<open>Values\<close>

text \<open>
  Python floats are idealised: a finite float is the real number it denotes (no rounding,
  no overflow), and the three special values are kept apart. Exceptions are values of
  \<open>py_error\<close>; a function of the source that can raise returns \<open>py_error + 'a\<close>.
\<close>

datatype pyfloat = Fin real | PInf | NInf | NaN

datatype py_error =
  ValueError | KeyError | TypeError | IndexError | ZeroDivisionError | AttributeError |
  OverflowError

text \<open>A raw reply of the language model: a string, or anything else (\<open>None\<close>, a number).\<close>

datatype raw = Text string | NonText

text \<open>
  A cell of a configuration table: a float, an integer or a string (a categorical choice).
  A row is a Python dictionary in insertion order, a table the list of its rows.
\<close>

datatype cell = F pyfloat | I int | S string

type_synonym row = "(string \<times> cell) list"

type_synonym table = "row list"

text \<open>
  A hyperparameter constraint is the list \<^verbatim>\<open>[dtype, dist_type, bounds]\<close> that
  \<^verbatim>\<open>_initialize_llambo\<close> builds: \<open>bounds\<close> is \<^verbatim>\<open>[low, high]\<close>, or the choices of a
  categorical parameter.
\<close>

record constraint =
  dtype :: string
  dist_type :: string
  bounds :: "cell list"

type_synonym constraints = "(string \<times> constraint) list"

section \<open>Float arithmetic\<close>

text \<open>
  Rounding to the nearest integer, a tie going to the even neighbour.
\<close>

definition round_half_even :: "real \<Rightarrow> int" where
  "round_half_even x =
     (let f = \<lfloor>x\<rfloor>; d = x - real_of_int f
      in if d < 1 / 2 then f
         else if 1 / 2 < d then f + 1
         else if even f then f else f + 1)"

text \<open>
  The float64 nearest to a real number: 53 binary digits, the exponent of the last digit
  not below \<open>-1074\<close>, a tie going to the even neighbour, and an infinity when the rounded
  value reaches \<open>2^1024\<close>. The sign of a zero is not kept.
\<close>

definition float64 :: "real \<Rightarrow> pyfloat" where
  "float64 x =
     (if x = 0 then Fin 0
      else
        (let e = max \<lfloor>log 2 \<bar>x\<bar>\<rfloor> (- 1022);
             ulp = 2 powr real_of_int (e - 52);
             y = real_of_int (round_half_even (x / ulp)) * ulp
         in if 2 ^ 1024 \<le> \<bar>y\<bar> then (if 0 < x then PInf else NInf) else Fin y))"

text \<open>
  Addition, subtraction and multiplication of floats: the exact result rounded, and the
  rules of the special values (an infinity minus itself and an infinity times zero are
  NaN).
\<close>

fun fl_neg :: "pyfloat \<Rightarrow> pyfloat" where
  "fl_neg (Fin a) = Fin (- a)"
| "fl_neg PInf = NInf"
| "fl_neg NInf = PInf"
| "fl_neg NaN = NaN"

fun fl_add :: "pyfloat \<Rightarrow> pyfloat \<Rightarrow> pyfloat" where
  "fl_add NaN _ = NaN"
| "fl_add _ NaN = NaN"
| "fl_add PInf NInf = NaN"
| "fl_add NInf PInf = NaN"
| "fl_add PInf _ = PInf"
| "fl_add NInf _ = NInf"
| "fl_add _ PInf = PInf"
| "fl_add _ NInf = NInf"
| "fl_add (Fin a) (Fin b) = float64 (a + b)"

definition fl_sub :: "pyfloat \<Rightarrow> pyfloat \<Rightarrow> pyfloat" where
  "fl_sub a b = fl_add a (fl_neg b)"

fun fl_sign :: "pyfloat \<Rightarrow> int" where
  "fl_sign (Fin a) = (if 0 < a then 1 else if a < 0 then - 1 else 0)"
| "fl_sign PInf = 1"
| "fl_sign NInf = - 1"
| "fl_sign NaN = 0"

fun fl_mul :: "pyfloat \<Rightarrow> pyfloat \<Rightarrow> pyfloat" where
  "fl_mul NaN _ = NaN"
| "fl_mul _ NaN = NaN"
| "fl_mul (Fin a) (Fin b) = float64 (a * b)"
| "fl_mul a b =
     (if fl_sign a * fl_sign b = 0 then NaN
      else if 0 < fl_sign a * fl_sign b then PInf else NInf)"

text \<open>The comparison \<^verbatim>\<open><\<close> of floats: false as soon as one side is NaN.\<close>

fun flt :: "pyfloat \<Rightarrow> pyfloat \<Rightarrow> bool" where
  "flt NaN _ = False"
| "flt _ NaN = False"
| "flt PInf _ = False"
| "flt _ NInf = False"
| "flt NInf _ = True"
| "flt _ PInf = True"
| "flt (Fin a) (Fin b) = (a < b)"

section \<open>Response parsing (generative\_sm.py, process\_response)\<close>

text \<open>
  The pattern of the source is \<^verbatim>\<open>## (-?[\d.]+) ##\<close>. Strings are byte strings here,
  so \<^verbatim>\<open>\d\<close> is an ASCII digit.
\<close>

definition is_digit :: "char \<Rightarrow> bool" where
  "is_digit c = (c \<in> set ''0123456789'')"

definition in_class :: "char \<Rightarrow> bool" where
  "in_class c = (is_digit c \<or> c = CHR ''.'')"

definition strip_prefix :: "string \<Rightarrow> string \<Rightarrow> string option" where
  "strip_prefix p s = (if take (length p) s = p then Some (drop (length p) s) else None)"

text \<open>
  One attempt of the regular expression at the start of \<open>s\<close>: the captured group and the
  number of characters the whole match consumed. The class \<^verbatim>\<open>[\d.]+\<close> is greedy and is
  followed by a space, which is not in the class, so the only run that can match is the
  maximal one; the optional minus sign is taken when it is there.
\<close>

definition match_at :: "string \<Rightarrow> (string \<times> nat) option" where
  "match_at s =
     (case strip_prefix ''## '' s of
        None \<Rightarrow> None
      | Some r1 \<Rightarrow>
          (let sign = (if take 1 r1 = ''-'' then ''-'' else '''');
               r2 = drop (length sign) r1;
               run = takeWhile in_class r2;
               r3 = dropWhile in_class r2
           in if run = [] then None
              else (case strip_prefix '' ##'' r3 of
                      None \<Rightarrow> None
                    | Some _ \<Rightarrow> Some (sign @ run, 3 + length sign + length run + 3))))"

text \<open>
  \<^verbatim>\<open>re.findall\<close>: the groups of the non-overlapping matches, scanning from the left.
  The first argument counts the characters still covered by the last match.
\<close>

fun findall_from :: "nat \<Rightarrow> string \<Rightarrow> string list" where
  "findall_from k [] = []"
| "findall_from (Suc k) (c # cs) = findall_from k cs"
| "findall_from 0 (c # cs) =
     (case match_at (c # cs) of
        Some (g, n) \<Rightarrow> g # findall_from (n - 1) cs
      | None \<Rightarrow> findall_from 0 cs)"

definition findall :: "string \<Rightarrow> string list" where
  "findall s = findall_from 0 s"

definition digit_val :: "char \<Rightarrow> nat" where
  "digit_val c = of_char c - 48"

definition digits_val :: "string \<Rightarrow> nat" where
  "digits_val ds = foldl (\<lambda>acc c. 10 * acc + digit_val c) 0 ds"

text \<open>
  Python's \<^verbatim>\<open>float(s)\<close> on a token over the alphabet of the pattern (an optional leading
  minus sign, then digits and dots): the token is a number when it has at least one digit
  and at most one dot; anything else raises \<^verbatim>\<open>ValueError\<close>.
\<close>

definition py_float :: "string \<Rightarrow> py_error + pyfloat" where
  "py_float s =
     (let neg = (take 1 s = ''-'');
          body = (if neg then drop 1 s else s);
          ip = takeWhile is_digit body;
          rest = dropWhile is_digit body;
          fp = (if take 1 rest = ''.'' then drop 1 rest else rest)
      in if list_all is_digit fp \<and> ip @ fp \<noteq> []
         then (let v = real (digits_val ip) + real (digits_val fp) / 10 ^ length fp
               in Inr (Fin (if neg then - v else v)))
         else Inl ValueError)"

fun process_response :: "raw list \<Rightarrow> py_error + pyfloat list" where
  "process_response [] = Inr []"
| "process_response (Text s # rs) =
     (let gen_pred = findall s
      in if length gen_pred = 1
         then (case py_float (gen_pred ! 0) of
                 Inl e \<Rightarrow> Inl e
               | Inr v \<Rightarrow>
                   (case process_response rs of
                      Inl e \<Rightarrow> Inl e
                    | Inr vs \<Rightarrow> Inr (v # vs)))
         else (case process_response rs of
                 Inl e \<Rightarrow> Inl e
               | Inr vs \<Rightarrow> Inr (NaN # vs)))"
| "process_response (NonText # rs) =
     (case process_response rs of
        Inl e \<Rightarrow> Inl e
      | Inr vs \<Rightarrow> Inr (NaN # vs))"

section \<open>The query engine (generative\_sm.py)\<close>

text \<open>
  The language model is outside the program: \<open>ask j i t q\<close> is what
  \<^verbatim>\<open>OpenAI_instance.ask\<close> does on the message built from template \<open>t\<close> (the \<open>j\<close>-th of
  the round) and the query text \<open>q\<close> of candidate number \<open>i\<close>: it raises, or returns a
  reply and a cost. Every pair \<open>(j, i)\<close> is asked once in a round, so a model that answers
  the same prompt differently is covered.

  The operations on the surrogate's collaborators are logged: a call of the rate
  limiter's \<^verbatim>\<open>acquire\<close>, and a query sent to the model.
\<close>

type_synonym 't llm = "nat \<Rightarrow> nat \<Rightarrow> 't \<Rightarrow> string \<Rightarrow> py_error + raw \<times> real"

datatype event = Acquire | Query nat nat

type_synonym response = "raw \<times> real \<times> nat"

definition async_generate ::
  "'t llm \<Rightarrow> nat \<Rightarrow> nat \<Rightarrow> 't \<Rightarrow> string \<Rightarrow> nat \<Rightarrow>
   event list \<times> (py_error + nat \<times> response)" where
  "async_generate ask j i few_shot_template q query_idx =
     ([Query j i],
      case ask j i few_shot_template q of
        Inl e \<Rightarrow> Inl e
      | Inr (resp, tot_cost) \<Rightarrow> Inr (query_idx, resp, tot_cost, 1000))"

text \<open>The first exception of a list of outcomes, or all the values.\<close>

fun gather :: "('e + 'a) list \<Rightarrow> 'e + 'a list" where
  "gather [] = Inr []"
| "gather (Inl e # rs) = Inl e"
| "gather (Inr v # rs) = (case gather rs of Inl e \<Rightarrow> Inl e | Inr vs \<Rightarrow> Inr (v # vs))"

definition regroup :: "nat \<Rightarrow> (nat \<times> response) list \<Rightarrow> response list list" where
  "regroup n llm_response =
     foldl (\<lambda>results (query_idx, r). results[query_idx := results ! query_idx @ [r]])
       (replicate n []) llm_response"

text \<open>
  \<^verbatim>\<open>_generate_concurrently\<close>: one task per template and query of the chunk, templates in
  the outer loop. No task awaits anything (the client call is synchronous), so the tasks
  run one after the other in the order of their creation, all of them, and
  \<^verbatim>\<open>asyncio.gather\<close> hands back their results in that order, or re-raises the first
  exception. \<open>off\<close> is the number of the chunk's first candidate.
\<close>

definition generate_concurrently ::
  "'t llm \<Rightarrow> nat \<Rightarrow> 't list \<Rightarrow> string list \<Rightarrow>
   event list \<times> (py_error + response list list)" where
  "generate_concurrently ask off few_shot_templates query_examples =
     (let tasks =
            concat (map (\<lambda>(j, template).
                      map (\<lambda>(query_idx, q).
                             async_generate ask j (off + query_idx) template q query_idx)
                        (enumerate 0 query_examples))
                    (enumerate 0 few_shot_templates))
      in (concat (map fst tasks),
          case gather (map snd tasks) of
            Inl e \<Rightarrow> Inl e
          | Inr llm_response \<Rightarrow> Inr (regroup (length query_examples) llm_response)))"

subsection \<open>Aggregation\<close>

fun fadd :: "pyfloat \<Rightarrow> pyfloat \<Rightarrow> pyfloat" where
  "fadd (Fin a) (Fin b) = Fin (a + b)"
| "fadd NaN _ = NaN"
| "fadd _ NaN = NaN"
| "fadd PInf NInf = NaN"
| "fadd NInf PInf = NaN"
| "fadd PInf _ = PInf"
| "fadd _ PInf = PInf"
| "fadd NInf _ = NInf"
| "fadd _ NInf = NInf"

fun fdiv_nat :: "pyfloat \<Rightarrow> nat \<Rightarrow> pyfloat" where
  "fdiv_nat (Fin a) n = Fin (a / real n)"
| "fdiv_nat x n = x"

text \<open>
  \<^verbatim>\<open>np.nanmean\<close> of one row: the sum of the entries that are not NaN over their number;
  NaN when there is none.
\<close>

definition nanmean :: "pyfloat list \<Rightarrow> pyfloat" where
  "nanmean row =
     (let ys = filter (\<lambda>v. v \<noteq> NaN) row
      in if ys = [] then NaN else fdiv_nat (foldl fadd (Fin 0) ys) (length ys))"

record prediction =
  mean_probs :: "pyfloat list"
  success_rate :: real
  tot_cost :: real
  tot_tokens :: nat

record accum =
  all_preds :: "pyfloat list list"
  acc_cost :: real
  acc_tokens :: nat
  bool_pred_returned :: "nat list"

text \<open>
  The body of the loop over the results of a chunk, for one candidate. An entry of
  \<open>sample_response\<close> is always a list of three, so the source's test on it holds, and a
  reply that is not a string goes to \<open>process_response\<close> as such.
\<close>

definition absorb_sample :: "nat \<Rightarrow> accum \<Rightarrow> response list \<Rightarrow> py_error + accum" where
  "absorb_sample n_gens acc sample_response =
     (if sample_response = []
      then Inr (acc\<lparr>all_preds := all_preds acc @ [replicate n_gens NaN]\<rparr>)
      else (case process_response (map fst sample_response) of
              Inl e \<Rightarrow> Inl e
            | Inr sample_preds \<Rightarrow>
                Inr (acc\<lparr>all_preds := all_preds acc @ [sample_preds],
                         acc_cost := acc_cost acc + sum_list (map (fst \<circ> snd) sample_response),
                         acc_tokens :=
                           acc_tokens acc + sum_list (map (snd \<circ> snd) sample_response)\<rparr>)))"

fun absorb_chunk :: "nat \<Rightarrow> accum \<Rightarrow> response list list \<Rightarrow> py_error + accum" where
  "absorb_chunk n_gens acc [] = Inr acc"
| "absorb_chunk n_gens acc (sample_response # rest) =
     (case absorb_sample n_gens acc sample_response of
        Inl e \<Rightarrow> Inl e
      | Inr acc' \<Rightarrow> absorb_chunk n_gens acc' rest)"

text \<open>
  The loop over the chunks of five candidates. Every entry of \<open>chunk_results\<close> is a list,
  never \<^verbatim>\<open>None\<close>, so the source's test \<^verbatim>\<open>x is not None\<close> gives 1 for each.
\<close>

fun predict_loop ::
  "'t llm \<Rightarrow> nat \<Rightarrow> 't list \<Rightarrow> (nat \<times> string list) list \<Rightarrow> accum \<Rightarrow>
   event list \<times> (py_error + accum)" where
  "predict_loop ask n_gens templates [] acc = ([], Inr acc)"
| "predict_loop ask n_gens templates ((off, query_chunk) # rest) acc =
     (case generate_concurrently ask off templates query_chunk of
        (evs, Inl e) \<Rightarrow> (evs, Inl e)
      | (evs, Inr chunk_results) \<Rightarrow>
          (case absorb_chunk n_gens
                  (acc\<lparr>bool_pred_returned :=
                         bool_pred_returned acc @ map (\<lambda>x. 1) chunk_results\<rparr>)
                  chunk_results of
             Inl e \<Rightarrow> (evs, Inl e)
           | Inr acc' \<Rightarrow>
               (case predict_loop ask n_gens templates rest acc' of
                  (evs', r) \<Rightarrow> (evs @ evs', r))))"

definition chunks_of :: "string list \<Rightarrow> (nat \<times> string list) list" where
  "chunks_of query_examples =
     map (\<lambda>k. (5 * k, take 5 (drop (5 * k) query_examples)))
       [0..<(length query_examples + 4) div 5]"

text \<open>
  \<^verbatim>\<open>np.array(all_preds).astype(float)\<close> needs rows of one length; \<^verbatim>\<open>np.nanmean\<close> along
  axis 1 is the mean of each row.
\<close>

definition np_array :: "pyfloat list list \<Rightarrow> py_error + pyfloat list list" where
  "np_array rows =
     (if list_all (\<lambda>r. length r = length (hd rows)) rows then Inr rows else Inl ValueError)"

definition predict ::
  "'t llm \<Rightarrow> nat \<Rightarrow> 't list \<Rightarrow> string list \<Rightarrow> event list \<times> (py_error + prediction)" where
  "predict ask n_gens all_prompt_templates query_examples =
     (case predict_loop ask n_gens all_prompt_templates (chunks_of query_examples)
             \<lparr>all_preds = [], acc_cost = 0, acc_tokens = 0, bool_pred_returned = []\<rparr> of
        (evs, Inl e) \<Rightarrow> (evs, Inl e)
      | (evs, Inr acc) \<Rightarrow>
          (evs,
           if length (bool_pred_returned acc) = 0 then Inl ZeroDivisionError
           else (case np_array (all_preds acc) of
                   Inl e \<Rightarrow> Inl e
                 | Inr pred_probs \<Rightarrow>
                     Inr \<lparr>mean_probs = map nanmean pred_probs,
                          success_rate =
                            real (sum_list (bool_pred_returned acc))
                              / real (length (bool_pred_returned acc)),
                          tot_cost = acc_cost acc,
                          tot_tokens = acc_tokens acc\<rparr>)))"

subsection \<open>The estimate of one candidate\<close>

text \<open>
  What the data model calls the probability estimate of a candidate, candidate by
  candidate: the replies of the templates to candidate number \<open>i\<close>, in the order of the
  templates, parsed as \<open>process_response\<close> does (a row of \<open>n_gens\<close> NaN when there is no
  reply at all), and their mean ignoring NaN. \<open>predict\<close> is compared with it below.
\<close>

definition candidate_preds ::
  "'t llm \<Rightarrow> nat \<Rightarrow> 't list \<Rightarrow> nat \<Rightarrow> string \<Rightarrow> py_error + pyfloat list" where
  "candidate_preds ask n_gens templates i q =
     (case gather (map (\<lambda>(j, t). ask j i t q) (enumerate 0 templates)) of
        Inl e \<Rightarrow> Inl e
      | Inr rs \<Rightarrow>
          if rs = [] then Inr (replicate n_gens NaN) else process_response (map fst rs))"

text \<open>
  Two notions for the proofs: the candidates of a chunk with their numbers, and a list of
  responses that is what the templates answered to one numbered candidate.
\<close>

definition numbered :: "nat \<Rightarrow> string list \<Rightarrow> (nat \<times> string) list" where
  "numbered off chunk = map (\<lambda>(k, q). (off + k, q)) (enumerate 0 chunk)"

definition answered :: "'t llm \<Rightarrow> 't list \<Rightarrow> response list \<Rightarrow> nat \<times> string \<Rightarrow> bool" where
  "answered ask ts x iq =
     (\<exists>rs. gather (map (\<lambda>(j, t). ask j (fst iq) t (snd iq)) (enumerate 0 ts)) = Inr rs \<and>
           x = map (\<lambda>(resp, c). (resp, c, 1000)) rs)"

subsection \<open>The log of a round\<close>

text \<open>
  Whether a query in the log has an acquisition of the rate limiter somewhere before it;
  the first argument says whether one has been seen.
\<close>

fun acquired_before :: "bool \<Rightarrow> event list \<Rightarrow> bool" where
  "acquired_before a [] = True"
| "acquired_before a (Acquire # es) = acquired_before True es"
| "acquired_before a (Query j i # es) = (a \<and> acquired_before a es)"

text \<open>A model that answers every candidate but number 1, whose reply is not a string.\<close>

definition silent_on_1 :: "unit llm" where
  "silent_on_1 j i t q = (if i = 1 then Inr (NonText, 0) else Inr (Text ''## 1 ##'', 1 / 2))"

section \<open>Warping and selection (generative\_sm.py)\<close>

text \<open>
  \<^verbatim>\<open>np.log10\<close> and \<^verbatim>\<open>10 ** x\<close> give the float that the numeric library of the platform
  computes, a rounded value that the source does not fix. The two operations are the
  parameter \<open>fm\<close>: \<open>log10_of\<close> is the logarithm of a positive finite float, \<open>power_of_ten\<close>
  is ten to the power of a finite float, which raises \<^verbatim>\<open>OverflowError\<close> when the result is
  out of range.
\<close>

record float_functions =
  log10_of :: "real \<Rightarrow> real"
  power_of_ten :: "real \<Rightarrow> py_error + real"

text \<open>
  \<^verbatim>\<open>np.log10\<close> and \<^verbatim>\<open>10 ** x\<close> on a cell. A string raises \<^verbatim>\<open>TypeError\<close>; the
  logarithm of zero is \<open>-inf\<close>, of a negative number NaN; an integer is taken as the float
  of its value, except that ten to a non-negative integer power is an integer.
\<close>

fun np_log10 :: "float_functions \<Rightarrow> cell \<Rightarrow> py_error + cell" where
  "np_log10 fm (F (Fin x)) =
     Inr (F (if 0 < x then Fin (log10_of fm x) else if x = 0 then NInf else NaN))"
| "np_log10 fm (F PInf) = Inr (F PInf)"
| "np_log10 fm (F NInf) = Inr (F NaN)"
| "np_log10 fm (F NaN) = Inr (F NaN)"
| "np_log10 fm (I n) =
     Inr (F (if 0 < n then Fin (log10_of fm (real_of_int n))
             else if n = 0 then NInf else NaN))"
| "np_log10 fm (S s) = Inl TypeError"

fun pow10 :: "float_functions \<Rightarrow> cell \<Rightarrow> py_error + cell" where
  "pow10 fm (F (Fin x)) =
     (case power_of_ten fm x of Inl e \<Rightarrow> Inl e | Inr y \<Rightarrow> Inr (F (Fin y)))"
| "pow10 fm (F PInf) = Inr (F PInf)"
| "pow10 fm (F NInf) = Inr (F (Fin 0))"
| "pow10 fm (F NaN) = Inr (F NaN)"
| "pow10 fm (I n) =
     (if 0 \<le> n then Inr (I (10 ^ nat n))
      else (case power_of_ten fm (real_of_int n) of
              Inl e \<Rightarrow> Inl e
            | Inr y \<Rightarrow> Inr (F (Fin y))))"
| "pow10 fm (S s) = Inl TypeError"

text \<open>
  The loop over \<^verbatim>\<open>hyperparameter_constraints.items()\<close> for one row: a constraint whose
  second entry is \<^verbatim>\<open>"log"\<close> has its field of the row replaced (\<^verbatim>\<open>KeyError\<close> when the
  row has no such field). \<open>op\<close> is \<open>np_log10\<close> for warping and \<open>pow10\<close> for unwarping.
\<close>

fun scale_config :: "(cell \<Rightarrow> py_error + cell) \<Rightarrow> constraints \<Rightarrow> row \<Rightarrow> py_error + row" where
  "scale_config op [] config = Inr config"
| "scale_config op ((hyperparameter, c) # rest) config =
     (if dist_type c = ''log''
      then (case map_of config hyperparameter of
              None \<Rightarrow> Inl KeyError
            | Some v \<Rightarrow>
                (case op v of
                   Inl e \<Rightarrow> Inl e
                 | Inr v' \<Rightarrow> scale_config op rest (AList.update hyperparameter v' config)))
      else scale_config op rest config)"

fun scale_table :: "(cell \<Rightarrow> py_error + cell) \<Rightarrow> constraints \<Rightarrow> table \<Rightarrow> py_error + table" where
  "scale_table op cs [] = Inr []"
| "scale_table op cs (config # rest) =
     (case scale_config op cs config of
        Inl e \<Rightarrow> Inl e
      | Inr config' \<Rightarrow>
          (case scale_table op cs rest of
             Inl e \<Rightarrow> Inl e
           | Inr rest' \<Rightarrow> Inr (config' # rest')))"

definition warp_candidate_points ::
  "float_functions \<Rightarrow> constraints \<Rightarrow> table \<Rightarrow> py_error + table" where
  "warp_candidate_points fm cs configurations = scale_table (np_log10 fm) cs configurations"

definition unwarp_candidate_points ::
  "float_functions \<Rightarrow> constraints \<Rightarrow> table \<Rightarrow> py_error + table" where
  "unwarp_candidate_points fm cs configurations = scale_table (pow10 fm) cs configurations"

subsection \<open>Selection\<close>

text \<open>
  The comparison \<^verbatim>\<open><=\<close> of floats: false as soon as one side is NaN.
\<close>

fun fle :: "pyfloat \<Rightarrow> pyfloat \<Rightarrow> bool" where
  "fle NaN _ = False"
| "fle _ NaN = False"
| "fle NInf _ = True"
| "fle _ PInf = True"
| "fle (Fin a) (Fin b) = (a \<le> b)"
| "fle (Fin a) NInf = False"
| "fle PInf (Fin b) = False"
| "fle PInf NInf = False"

text \<open>
  \<^verbatim>\<open>np.argmax\<close> on a vector of floats, as numpy's loop does it: the running maximum
  \<open>mp\<close> at index \<open>max_ind\<close> is replaced by an entry \<open>x\<close> when \<^verbatim>\<open>!(x <= mp)\<close>, and
  the scan stops at the first NaN, which is the result. An empty vector raises
  \<^verbatim>\<open>ValueError\<close>.
\<close>

fun argmax_loop :: "pyfloat \<Rightarrow> nat \<Rightarrow> nat \<Rightarrow> pyfloat list \<Rightarrow> nat" where
  "argmax_loop mp max_ind i [] = max_ind"
| "argmax_loop mp max_ind i (x # xs) =
     (if fle x mp then argmax_loop mp max_ind (Suc i) xs
      else if x = NaN then i
      else argmax_loop x i (Suc i) xs)"

fun np_argmax :: "pyfloat list \<Rightarrow> py_error + nat" where
  "np_argmax [] = Inl ValueError"
| "np_argmax (x # xs) = Inr (if x = NaN then 0 else argmax_loop x 0 1 xs)"

text \<open>
  \<^verbatim>\<open>_evaluate_candidate_points\<close>. The prompt builder \<^verbatim>\<open>gen_prompt_tempates\<close> is the
  parameter \<open>gen\<close>: it gives the templates and the query texts of the candidates, or
  raises. Running times are not modelled.
\<close>

definition evaluate_candidate_points ::
  "'t llm \<Rightarrow> nat \<Rightarrow> (table \<Rightarrow> real list \<Rightarrow> table \<Rightarrow> py_error + 't list \<times> string list) \<Rightarrow>
   table \<Rightarrow> real list \<Rightarrow> table \<Rightarrow> py_error + pyfloat list \<times> real" where
  "evaluate_candidate_points ask n_gens gen observed_configs observed_fvals candidate_configs =
     (case gen observed_configs observed_fvals candidate_configs of
        Inl e \<Rightarrow> Inl e
      | Inr (all_prompt_templates, query_examples) \<Rightarrow>
          (case snd (predict ask n_gens all_prompt_templates query_examples) of
             Inl e \<Rightarrow> Inl e
           | Inr response \<Rightarrow> Inr (mean_probs response, tot_cost response)))"

text \<open>\<^verbatim>\<open>candidate_configs.iloc[[i], :]\<close>: the row at position \<open>i\<close>.\<close>

definition iloc :: "table \<Rightarrow> nat \<Rightarrow> py_error + row" where
  "iloc t i = (if i < length t then Inr (t ! i) else Inl IndexError)"

text \<open>
  \<^verbatim>\<open>select_query_point\<close>, with \<open>evaluate\<close> for the evaluation of the warped tables: the
  selected row, the probabilities and the cost.
\<close>

definition select_query_point ::
  "float_functions \<Rightarrow> constraints \<Rightarrow> (table \<Rightarrow> real list \<Rightarrow> table \<Rightarrow> py_error + pyfloat list \<times> real) \<Rightarrow>
   table \<Rightarrow> real list \<Rightarrow> table \<Rightarrow> py_error + row \<times> pyfloat list \<times> real" where
  "select_query_point fm cs evaluate observed_configs observed_fvals candidate_configs =
     (case warp_candidate_points fm cs observed_configs of
        Inl e \<Rightarrow> Inl e
      | Inr observed' \<Rightarrow>
     (case warp_candidate_points fm cs candidate_configs of
        Inl e \<Rightarrow> Inl e
      | Inr candidate' \<Rightarrow>
     (case evaluate observed' observed_fvals candidate' of
        Inl e \<Rightarrow> Inl e
      | Inr (pred_probs, cost) \<Rightarrow>
     (case np_argmax pred_probs of
        Inl e \<Rightarrow> Inl e
      | Inr best_point_index \<Rightarrow>
     (case unwarp_candidate_points fm cs candidate' of
        Inl e \<Rightarrow> Inl e
      | Inr unwarped \<Rightarrow>
     (case iloc unwarped best_point_index of
        Inl e \<Rightarrow> Inl e
      | Inr best_point \<Rightarrow> Inr (best_point, pred_probs, cost)))))))"

subsection \<open>Notions for the round trip\<close>

text \<open>
  Whether a field is flagged log-scale by the constraint set; whether the log-scale
  fields of a row are all there and positive numbers; and that the names of the
  constraints and of each row are distinct, as the keys of dictionaries are.
\<close>

definition flagged :: "constraints \<Rightarrow> string \<Rightarrow> bool" where
  "flagged cs k = (case map_of cs k of Some c \<Rightarrow> dist_type c = ''log'' | None \<Rightarrow> False)"

fun positive_cell :: "cell option \<Rightarrow> bool" where
  "positive_cell (Some (F (Fin x))) = (0 < x)"
| "positive_cell (Some (I n)) = (0 < n)"
| "positive_cell _ = False"

definition positive_log_fields :: "constraints \<Rightarrow> row \<Rightarrow> bool" where
  "positive_log_fields cs r =
     list_all (\<lambda>(k, c). if dist_type c = ''log'' then positive_cell (map_of r k) else True) cs"

definition well_formed :: "constraints \<Rightarrow> table \<Rightarrow> bool" where
  "well_formed cs t =
     (distinct (map fst cs) \<and> list_all (\<lambda>r. distinct (map fst r)) t)"

text \<open>
  The number in a cell. The two operations are accurate to the relative error \<open>u\<close> at a
  number \<open>x\<close> when the computed logarithm is within \<open>u\<close> of the logarithm of \<open>x\<close>, ten to
  the power of the computed logarithm is in range and the computed power is within \<open>u\<close>
  of the power. A row has accurate log fields when this holds at each of its log-scale
  fields.
\<close>

fun cell_value :: "cell \<Rightarrow> real" where
  "cell_value (F (Fin x)) = x"
| "cell_value (I n) = real_of_int n"
| "cell_value _ = 0"

definition accurate :: "float_functions \<Rightarrow> real \<Rightarrow> real \<Rightarrow> bool" where
  "accurate fm u x =
     (\<bar>log10_of fm x - log 10 x\<bar> \<le> u * \<bar>log 10 x\<bar> \<and>
      (case power_of_ten fm (log10_of fm x) of
         Inl e \<Rightarrow> False
       | Inr z \<Rightarrow> \<bar>z - 10 powr log10_of fm x\<bar> \<le> u * 10 powr log10_of fm x))"

definition accurate_log_fields :: "float_functions \<Rightarrow> real \<Rightarrow> constraints \<Rightarrow> row \<Rightarrow> bool" where
  "accurate_log_fields fm u cs r =
     list_all (\<lambda>(k, c). if dist_type c = ''log''
                         then (case map_of r k of
                                 Some v \<Rightarrow> accurate fm u (cell_value v)
                               | None \<Rightarrow> False)
                         else True) cs"

text \<open>
  The tolerance of the round trip at \<open>x\<close> for operations accurate to \<open>u\<close>, and a cell that
  is a float within this tolerance of the number in another cell.
\<close>

definition tolerance :: "real \<Rightarrow> real \<Rightarrow> real" where
  "tolerance u x = x * ((1 + u) * 10 powr (u * \<bar>log 10 x\<bar>) - 1)"

fun close_to :: "real \<Rightarrow> cell \<Rightarrow> cell \<Rightarrow> bool" where
  "close_to u v (F (Fin z)) = (\<bar>z - cell_value v\<bar> \<le> tolerance u (cell_value v))"
| "close_to u v _ = False"

text \<open>
  What warping makes of a cell with a positive number, and what unwarping makes of a
  finite float when the power is in range.
\<close>

fun lg :: "float_functions \<Rightarrow> cell \<Rightarrow> cell" where
  "lg fm (F (Fin x)) = F (Fin (log10_of fm x))"
| "lg fm (I n) = F (Fin (log10_of fm (real_of_int n)))"
| "lg fm v = v"

fun pw :: "float_functions \<Rightarrow> cell \<Rightarrow> cell" where
  "pw fm (F (Fin x)) = (case power_of_ten fm x of Inr z \<Rightarrow> F (Fin z) | Inl e \<Rightarrow> F (Fin x))"
| "pw fm v = v"

text \<open>
  Operations without rounding, and the rows of the scenario: a log-scaled learning rate
  and a linear integer field.
\<close>

definition exact_functions :: float_functions where
  "exact_functions = \<lparr>log10_of = log 10, power_of_ten = (\<lambda>y. Inr (10 powr y))\<rparr>"

definition example_constraints :: constraints where
  "example_constraints =
     [(''learning_rate'',
       \<lparr>dtype = ''float'', dist_type = ''log'', bounds = [F (Fin (1 / 1000)), F (Fin 1)]\<rparr>),
      (''layers'', \<lparr>dtype = ''int'', dist_type = ''linear'', bounds = [I 1, I 8]\<rparr>)]"

definition example_table :: table where
  "example_table = [[(''learning_rate'', F (Fin (1 / 100))), (''layers'', I 3)]]"

text \<open>
  The largest float, \<open>1.7976931348623157e308\<close>, and the two operations as CPython
  computes them there: the logarithm is the float \<open>308.25471555991675\<close>, which is above
  the logarithm of \<open>2^1024\<close>, and ten to this power or a greater one is out of range.
  Elsewhere the operations stand without rounding.
\<close>

definition largest_float :: real where
  "largest_float = 2 ^ 1024 - 2 ^ 971"

definition log10_largest :: real where
  "log10_largest = 5422874305198591 / 2 ^ 44"

definition cpython_at_largest :: float_functions where
  "cpython_at_largest =
     \<lparr>log10_of = (\<lambda>x. if x = largest_float then log10_largest else log 10 x),
      power_of_ten = (\<lambda>y. if log10_largest \<le> y then Inl OverflowError else Inr (10 powr y))\<rparr>"

text \<open>
  A round of three candidates with one template: the model answers \<^verbatim>\<open>## 0.3 ##\<close> to the
  first candidate and \<^verbatim>\<open>## 0.9 ##\<close> to the third, and its reply to the second has no
  number in it. The prompt builder is reduced to one template and one query text per
  candidate.
\<close>

definition unparseable_on_1 :: "unit llm" where
  "unparseable_on_1 j i t q =
     (if i = 0 then Inr (Text ''## 0.3 ##'', 0)
      else if i = 1 then Inr (Text ''I cannot tell'', 0)
      else Inr (Text ''## 0.9 ##'', 0))"

definition one_template :: "table \<Rightarrow> real list \<Rightarrow> table \<Rightarrow> py_error + unit list \<times> string list" where
  "one_template observed fvals candidates = Inr ([()], map (\<lambda>r. ''candidate'') candidates)"

definition linear_x :: constraints where
  "linear_x = [(''x'', \<lparr>dtype = ''float'', dist_type = ''linear'',
                        bounds = [F (Fin 0), F (Fin 10)]\<rparr>)]"

section \<open>The sampler (sampler\_base.py)\<close>

text \<open>
  An optuna distribution, as far as \<^verbatim>\<open>_initialize_llambo\<close> reads it: \<^verbatim>\<open>low\<close>, \<^verbatim>\<open>high\<close> and
  \<^verbatim>\<open>log\<close> of a float or integer distribution, the choices of a categorical one.
  \<open>OtherDistribution\<close> is any other subclass of \<^verbatim>\<open>BaseDistribution\<close>. A search space is a
  dictionary from parameter names to distributions, in insertion order.
\<close>

datatype distribution =
    FloatDistribution real real bool
  | IntDistribution int int bool
  | CategoricalDistribution "cell list"
  | OtherDistribution

type_synonym space = "(string \<times> distribution) list"

datatype study_direction = NOT_SET | MINIMIZE | MAXIMIZE

datatype trial_state = RUNNING | COMPLETE | PRUNED | FAIL | WAITING

text \<open>
  The class \<^verbatim>\<open>LLAMBO\<close> is imported from \<^verbatim>\<open>llambo.llambo\<close> and is not among the source
  files. An instance is represented by the calls made on it so far, oldest first,
  starting with the constructor call; what a call returns or raises is a function of these
  calls, the parameter \<open>llambo_class\<close> below. The constructor arguments that
  \<^verbatim>\<open>_initialize_llambo\<close> computes are recorded; the others (\<^verbatim>\<open>n_candidates\<close>,
  \<^verbatim>\<open>n_templates\<close>, \<^verbatim>\<open>n_gens\<close>, \<^verbatim>\<open>alpha\<close>, \<^verbatim>\<open>n_trials\<close>, \<^verbatim>\<open>key\<close>, \<^verbatim>\<open>model\<close>) are attributes
  that \<^verbatim>\<open>__init__\<close> sets once and nothing changes.
\<close>

record task_context =
  tc_custom_task_description :: "string option"
  tc_lower_is_better :: bool
  tc_hyperparameter_constraints :: constraints

datatype llambo_call =
    Construct task_context string int "real option"
  | Initialize table
  | Sample_configurations
  | Update_history row real

type_synonym llambo = "llambo_call list"

record llambo_class =
  initialize_raises :: "llambo \<Rightarrow> py_error option"
  sample_configurations_returns :: "llambo \<Rightarrow> py_error + row"
  update_history_raises :: "llambo \<Rightarrow> py_error option"

text \<open>
  The attributes of a \<^verbatim>\<open>Sampler\<close> that the sampling methods read or write. An attribute
  that \<^verbatim>\<open>__init__\<close> does not set (\<^verbatim>\<open>lower_is_better\<close>, \<^verbatim>\<open>init_configs\<close>,
  \<^verbatim>\<open>hyperparameter_constraints\<close>) is \<open>None\<close> until it is assigned, and reading it then raises
  \<^verbatim>\<open>AttributeError\<close>. \<open>random_sampler\<close> is the state of \<^verbatim>\<open>_random_sampler\<close>: the number of
  values drawn from it so far. Timing and debug printing are left out.
\<close>

record sampler =
  n_initial_samples :: int
  sm_mode :: string
  custom_task_description :: "string option"
  search_space :: "space option"
  lower_is_better :: "bool option"
  init_configs :: "table option"
  hyperparameter_constraints :: "constraints option"
  init_observed_configs :: table
  init_observed_fvals :: "real list"
  random_sampler :: nat
  LLAMBO_instance :: "llambo option"


text \<open>
  Indexing a list with a Python integer: a negative index counts from the end, an index
  out of range raises \<^verbatim>\<open>IndexError\<close>.
\<close>

definition py_index :: "'a list \<Rightarrow> int \<Rightarrow> py_error + 'a" where
  "py_index xs i =
     (if 0 \<le> i \<and> i < int (length xs) then Inr (xs ! nat i)
      else if i < 0 \<and> - int (length xs) \<le> i then Inr (xs ! nat (int (length xs) + i))
      else Inl IndexError)"

text \<open>
  \<^verbatim>\<open>generate_random_samples\<close>. \<^verbatim>\<open>RandomSampler.sample_independent\<close> belongs to optuna; it is
  the parameter \<open>draw\<close>, a function of the number of values drawn before, the parameter
  name and the distribution. The inner loop fills one dictionary, the outer loop runs
  \<^verbatim>\<open>range(num_samples)\<close>, which is empty for a number below one.
\<close>

type_synonym rng = "nat \<Rightarrow> string \<Rightarrow> distribution \<Rightarrow> cell"

fun sample_params :: "rng \<Rightarrow> space \<Rightarrow> row \<Rightarrow> nat \<Rightarrow> row \<times> nat" where
  "sample_params draw [] params k = (params, k)"
| "sample_params draw ((param_name, d) # rest) params k =
     sample_params draw rest (AList.update param_name (draw k param_name d) params) (Suc k)"

fun samples_loop :: "rng \<Rightarrow> space \<Rightarrow> nat \<Rightarrow> table \<Rightarrow> nat \<Rightarrow> table \<times> nat" where
  "samples_loop draw sp 0 samples k = (samples, k)"
| "samples_loop draw sp (Suc n) samples k =
     (case sample_params draw sp [] k of
        (params, k') \<Rightarrow> samples_loop draw sp n (samples @ [params]) k')"

definition generate_random_samples :: "rng \<Rightarrow> sampler \<Rightarrow> space \<Rightarrow> int \<Rightarrow> table \<times> sampler" where
  "generate_random_samples draw self sp num_samples =
     (case samples_loop draw sp (nat num_samples) [] (random_sampler self) of
        (samples, k) \<Rightarrow> (samples, self\<lparr>random_sampler := k\<rparr>))"

text \<open>
  \<^verbatim>\<open>_initialize_llambo\<close>: the constraints are rebuilt from the search space, one entry per
  parameter; a distribution of another kind raises \<^verbatim>\<open>ValueError\<close>, with the entries built
  so far left in \<^verbatim>\<open>hyperparameter_constraints\<close>. Then the instance is constructed.
\<close>

fun constraint_of :: "distribution \<Rightarrow> py_error + constraint" where
  "constraint_of (FloatDistribution low high is_log) =
     Inr \<lparr>dtype = ''float'', dist_type = (if is_log then ''log'' else ''linear''),
          bounds = [F (Fin low), F (Fin high)]\<rparr>"
| "constraint_of (IntDistribution low high is_log) =
     Inr \<lparr>dtype = ''int'', dist_type = (if is_log then ''log'' else ''linear''),
          bounds = [I low, I high]\<rparr>"
| "constraint_of (CategoricalDistribution choices) =
     Inr \<lparr>dtype = ''categorical'', dist_type = ''categorical'', bounds = choices\<rparr>"
| "constraint_of OtherDistribution = Inl ValueError"

fun constraints_loop :: "space \<Rightarrow> constraints \<Rightarrow> py_error option \<times> constraints" where
  "constraints_loop [] cs = (None, cs)"
| "constraints_loop ((param_name, d) # rest) cs =
     (case constraint_of d of
        Inl e \<Rightarrow> (Some e, cs)
      | Inr c \<Rightarrow> constraints_loop rest (AList.update param_name c cs))"

definition initialize_llambo :: "sampler \<Rightarrow> space \<Rightarrow> py_error option \<times> sampler" where
  "initialize_llambo self sp =
     (case constraints_loop sp [] of
        (Some e, cs) \<Rightarrow> (Some e, self\<lparr>hyperparameter_constraints := Some cs\<rparr>)
      | (None, cs) \<Rightarrow>
          (let self1 = self\<lparr>hyperparameter_constraints := Some cs\<rparr> in
           case lower_is_better self1 of
             None \<Rightarrow> (Some AttributeError, self1)
           | Some lib \<Rightarrow>
               (let task = \<lparr>tc_custom_task_description = custom_task_description self1,
                                tc_lower_is_better = lib,
                                tc_hyperparameter_constraints = cs\<rparr>;
                    top_pct = (if sm_mode self1 = ''generative'' then Some (1 / 4) else None)
                in (None, self1\<lparr>LLAMBO_instance :=
                      Some [Construct task (sm_mode self1) (n_initial_samples self1)
                              top_pct]\<rparr>))))"

text \<open>
  \<^verbatim>\<open>_sample_parameters\<close>: \<^verbatim>\<open>self.LLAMBO_instance.sample_configurations()\<close>.
\<close>

definition sample_parameters :: "llambo_class \<Rightarrow> sampler \<Rightarrow> (py_error + row) \<times> sampler" where
  "sample_parameters cls self =
     (case LLAMBO_instance self of
        None \<Rightarrow> (Inl AttributeError, self)
      | Some calls \<Rightarrow>
          (let calls' = calls @ [Sample_configurations]
           in (sample_configurations_returns cls calls',
               self\<lparr>LLAMBO_instance := Some calls'\<rparr>)))"

text \<open>
  \<^verbatim>\<open>sample_relative\<close>, for the direction of the study, the number of the trial and the
  search space it is called with. The second and third argument of \<^verbatim>\<open>_initialize\<close> are
  attributes of the instance itself, so the call is recorded with its first argument.
\<close>

definition sample_relative ::
  "llambo_class \<Rightarrow> rng \<Rightarrow> sampler \<Rightarrow> study_direction \<Rightarrow> nat \<Rightarrow> space \<Rightarrow>
   (py_error + row) \<times> sampler" where
  "sample_relative cls draw self0 direction number sp =
     (if length sp = 0 then (Inr [], self0)
      else
        (let self = self0\<lparr>search_space := Some sp\<rparr> in
         if int number \<le> n_initial_samples self then
           (case (if number = 1 then
                    (let self1 = self\<lparr>lower_is_better := Some (direction = MINIMIZE)\<rparr> in
                     case generate_random_samples draw self1 sp (n_initial_samples self1) of
                       (samples, self2) \<Rightarrow>
                         initialize_llambo (self2\<lparr>init_configs := Some samples\<rparr>) sp)
                  else (None, self)) of
              (Some e, self3) \<Rightarrow> (Inl e, self3)
            | (None, self3) \<Rightarrow>
                (case init_configs self3 of
                   None \<Rightarrow> (Inl AttributeError, self3)
                 | Some configs \<Rightarrow> (py_index configs (int number - 1), self3)))
         else
           (case (if int number = n_initial_samples self + 1 then
                    (case LLAMBO_instance self of
                       None \<Rightarrow> (Some AttributeError, self)
                     | Some calls \<Rightarrow>
                         (case init_configs self of
                            None \<Rightarrow> (Some AttributeError, self)
                          | Some configs \<Rightarrow>
                              (let calls' = calls @ [Initialize configs]
                               in (initialize_raises cls calls',
                                   self\<lparr>LLAMBO_instance := Some calls'\<rparr>))))
                  else (None, self)) of
              (Some e, self3) \<Rightarrow> (Inl e, self3)
            | (None, self3) \<Rightarrow> sample_parameters cls self3)))"

text \<open>
  \<^verbatim>\<open>after_trial\<close>, for the parameters of the trial, its state and its values.
\<close>

definition after_trial ::
  "llambo_class \<Rightarrow> sampler \<Rightarrow> row \<Rightarrow> trial_state \<Rightarrow> real list option \<Rightarrow>
   py_error option \<times> sampler" where
  "after_trial cls self params state vals =
     (case LLAMBO_instance self of
        None \<Rightarrow> (None, self)
      | Some calls \<Rightarrow>
          (case vals of
             None \<Rightarrow> (None, self)
           | Some vs \<Rightarrow>
               if state = COMPLETE then
                 (case py_index vs 0 of
                    Inl e \<Rightarrow> (Some e, self)
                  | Inr v \<Rightarrow>
                      (let calls' = calls @ [Update_history params v]
                       in (update_history_raises cls calls',
                           self\<lparr>LLAMBO_instance := Some calls'\<rparr>)))
               else (None, self)))"

subsection \<open>Predicates and examples for the sampler\<close>


definition warmed_up :: "sampler \<Rightarrow> table \<Rightarrow> llambo \<Rightarrow> bool" where
  "warmed_up self pool calls =
     (init_configs self = Some pool \<and> int (length pool) = n_initial_samples self \<and>
      LLAMBO_instance self = Some calls)"






section \<open>Theorems: response parsing\<close>

lemma process_response_length:
  "process_response rs = Inr vs \<Longrightarrow> length vs = length rs"
  by (induction rs arbitrary: vs rule: process_response.induct)
     (auto simp: Let_def split: sum.splits if_splits)

lemma process_response_NonText:
  "process_response (replicate n NonText) = Inr (replicate n NaN)"
  by (induction n) auto

text \<open>
  C4 (the code departs from the claim). The claim: \<open>process_response\<close> returns one value
  per input and no input ever raises an error. The reply \<^verbatim>\<open>## 1.2.3 ##\<close> has exactly one
  match of the pattern, whose group \<^verbatim>\<open>1.2.3\<close> is not a number: \<^verbatim>\<open>float\<close> raises
  \<^verbatim>\<open>ValueError\<close>, and so does \<open>process_response\<close>.
\<close>

theorem process_response_raises:
  "process_response [Text ''## 1.2.3 ##''] = Inl ValueError"
  by code_simp

section \<open>Theorems: the query engine\<close>


lemma gather_map_Inr: "gather (map Inr vs) = Inr vs"
  by (induction vs) auto

lemma gather_Inr_D: "gather xs = Inr vs \<Longrightarrow> xs = map Inr vs"
proof (induction xs arbitrary: vs)
  case Nil
  then show ?case by auto
next
  case (Cons x xs)
  then show ?case by (cases x) (auto split: sum.splits)
qed

lemma gather_Inr: "gather xs = Inr vs \<longleftrightarrow> xs = map Inr vs"
  using gather_Inr_D gather_map_Inr by blast

lemma length_foldl_regroup:
  "length (foldl (\<lambda>results (k, r). results[k := results ! k @ [r]]) acc rs) = length acc"
  by (induction rs arbitrary: acc) (auto split: prod.splits)

lemma nth_foldl_regroup:
  "i < length acc \<Longrightarrow>
   foldl (\<lambda>results (k, r). results[k := results ! k @ [r]]) acc rs ! i =
   acc ! i @ map snd (filter (\<lambda>p. fst p = i) rs)"
proof (induction rs arbitrary: acc)
  case Nil
  then show ?case by simp
next
  case (Cons p rs)
  obtain k r where p: "p = (k, r)" by (cases p)
  have "i < length (acc[k := acc ! k @ [r]])" using Cons.prems by simp
  from Cons.IH[OF this] show ?case
    using Cons.prems by (auto simp: p nth_list_update)
qed

lemma length_regroup: "length (regroup n rs) = n"
  by (simp add: regroup_def length_foldl_regroup)

lemma nth_regroup:
  "i < n \<Longrightarrow> regroup n rs ! i = map snd (filter (\<lambda>p. fst p = i) rs)"
  by (simp add: regroup_def nth_foldl_regroup)

lemma filter_enumerate_eq:
  "n \<le> i \<Longrightarrow> i < n + length xs \<Longrightarrow>
   filter (\<lambda>p. fst p = i) (enumerate n xs) = [(i, xs ! (i - n))]"
proof (induction xs arbitrary: n)
  case Nil
  then show ?case by simp
next
  case (Cons x xs)
  show ?case
  proof (cases "i = n")
    case True
    have "filter (\<lambda>p. fst p = i) (enumerate (Suc n) xs) = []"
      using True by (auto simp: filter_empty_conv in_set_enumerate_eq)
    then show ?thesis using True by simp
  next
    case False
    then have "Suc n \<le> i" "i < Suc n + length xs" using Cons.prems by auto
    moreover have "i - n = Suc (i - Suc n)" using False Cons.prems by arith
    ultimately show ?thesis using Cons.IH[of "Suc n"] False
      by simp
  qed
qed

lemma filter_tasks_of_candidate:
  assumes "i < length qs"
  shows "filter (\<lambda>p. fst p = i) (map (\<lambda>(k, q). (k, g k q)) (enumerate 0 qs)) = [(i, g i (qs ! i))]"
proof -
  have "filter (\<lambda>p. fst p = i) (map (\<lambda>(k, q). (k, g k q)) (enumerate 0 qs)) =
        map (\<lambda>(k, q). (k, g k q)) (filter (\<lambda>p. fst p = i) (enumerate 0 qs))"
    by (simp add: filter_map o_def case_prod_beta)
  also have "\<dots> = [(i, g i (qs ! i))]"
    using filter_enumerate_eq[of 0 i qs] assms by simp
  finally show ?thesis .
qed


lemma generate_concurrently_Inr:
  assumes "snd (generate_concurrently ask off ts qs) = Inr res"
  shows "length res = length qs"
    and "k < length qs \<Longrightarrow>
         \<exists>rs. gather (map (\<lambda>(j, t). ask j (off + k) t (qs ! k)) (enumerate 0 ts)) = Inr rs \<and>
              res ! k = map (\<lambda>(resp, c). (resp, c, 1000)) rs"
proof -
  define out where "out = (\<lambda>j k t q.
     case ask j (off + k) t q of
       Inl e \<Rightarrow> (Inl e :: py_error + nat \<times> response)
     | Inr (resp, c) \<Rightarrow> Inr (k, resp, c, 1000))"
  define f where "f = (\<lambda>j k t q.
     (k, fst (projr (ask j (off + k) t q)), snd (projr (ask j (off + k) t q)), 1000::nat))"
  define touts where "touts =
     concat (map (\<lambda>(j, t). map (\<lambda>(k, q). out j k t q) (enumerate 0 qs)) (enumerate 0 ts))"
  have snd_tasks: "map snd (concat (map (\<lambda>(j, template).
                      map (\<lambda>(query_idx, q).
                             async_generate ask j (off + query_idx) template q query_idx)
                        (enumerate 0 qs))
                    (enumerate 0 ts))) = touts"
    unfolding touts_def out_def map_concat
    by (rule arg_cong[where f = concat]) (auto simp: async_generate_def)
  from assms obtain llm where g: "gather touts = Inr llm" and res: "res = regroup (length qs) llm"
    unfolding generate_concurrently_def Let_def snd_tasks
    by (auto split: sum.splits)
  from g have touts: "touts = map Inr llm" by (simp add: gather_Inr)
  have ok: "\<exists>v. ask j (off + k) t q = Inr v"
    if "(j, t) \<in> set (enumerate 0 ts)" "(k, q) \<in> set (enumerate 0 qs)" for j t k q
  proof -
    have "out j k t q \<in> set touts"
      unfolding touts_def using that by force
    then obtain v where "out j k t q = Inr v" using touts by auto
    then show ?thesis unfolding out_def by (auto split: sum.splits)
  qed
  have out_f: "out j k t q = Inr (f j k t q)"
    if "(j, t) \<in> set (enumerate 0 ts)" "(k, q) \<in> set (enumerate 0 qs)" for j t k q
    using ok[OF that] unfolding out_def f_def by (auto split: prod.splits)
  have "touts = map Inr (concat (map (\<lambda>(j, t). map (\<lambda>(k, q). f j k t q) (enumerate 0 qs))
                                  (enumerate 0 ts)))"
    unfolding touts_def map_concat
    by (rule arg_cong[where f = concat]) (auto simp: out_f)
  with touts have llm: "llm = concat (map (\<lambda>(j, t). map (\<lambda>(k, q). f j k t q) (enumerate 0 qs))
                                  (enumerate 0 ts))"
    by (metis inj_Inr inj_map_eq_map)
  show "length res = length qs" by (simp add: res length_regroup)
  assume k: "k < length qs"
  have one: "filter (\<lambda>p. fst p = k) (map (\<lambda>(k, q). f j k t q) (enumerate 0 qs)) = [f j k t (qs ! k)]"
    for j t
    using filter_tasks_of_candidate[OF k, of "\<lambda>k q. snd (f j k t q)"]
    by (simp add: f_def)
  have "res ! k = map snd (filter (\<lambda>p. fst p = k) llm)"
    using k by (simp add: res nth_regroup)
  also have "\<dots> = map (\<lambda>(j, t). snd (f j k t (qs ! k))) (enumerate 0 ts)"
    unfolding llm filter_concat map_concat
    by (induction ts rule: rev_induct) (auto simp: one enumerate_append_eq)
  finally have resk: "res ! k = map (\<lambda>(j, t). snd (f j k t (qs ! k))) (enumerate 0 ts)" .
  define rs where "rs = map (\<lambda>(j, t). projr (ask j (off + k) t (qs ! k))) (enumerate 0 ts)"
  have kq: "(k, qs ! k) \<in> set (enumerate 0 qs)"
    using k by (simp add: in_set_enumerate_eq)
  have "map (\<lambda>(j, t). ask j (off + k) t (qs ! k)) (enumerate 0 ts) = map Inr rs"
    unfolding rs_def using ok[OF _ kq] by (fastforce simp: case_prod_beta)
  then have "gather (map (\<lambda>(j, t). ask j (off + k) t (qs ! k)) (enumerate 0 ts)) = Inr rs"
    by (simp add: gather_map_Inr)
  moreover have "res ! k = map (\<lambda>(resp, c). (resp, c, 1000)) rs"
    unfolding resk rs_def f_def by (simp add: case_prod_beta o_def)
  ultimately show "\<exists>rs. gather (map (\<lambda>(j, t). ask j (off + k) t (qs ! k)) (enumerate 0 ts)) = Inr rs \<and>
              res ! k = map (\<lambda>(resp, c). (resp, c, 1000)) rs"
    by blast
qed


lemma fst_response: "fst \<circ> (\<lambda>(resp, c). (resp, c, 1000::nat)) = fst"
  by auto

lemma absorb_sample_Inr:
  assumes "absorb_sample n acc (map (\<lambda>(resp, c). (resp, c, 1000)) rs) = Inr acc'"
    and "gather (map (\<lambda>(j, t). ask j i t q) (enumerate 0 ts)) = Inr rs"
  shows "\<exists>row. candidate_preds ask n ts i q = Inr row \<and>
               all_preds acc' = all_preds acc @ [row] \<and>
               bool_pred_returned acc' = bool_pred_returned acc"
  using assms unfolding absorb_sample_def candidate_preds_def
  by (auto simp: fst_response split: if_splits sum.splits)

lemma absorb_chunk_Inr:
  assumes "list_all2 (answered ask ts) xs iqs"
    and "absorb_chunk n acc xs = Inr acc'"
  shows "\<exists>rows. all_preds acc' = all_preds acc @ rows \<and>
           bool_pred_returned acc' = bool_pred_returned acc \<and>
           map Inr rows = map (\<lambda>(i, q). candidate_preds ask n ts i q) iqs"
  using assms
proof (induction arbitrary: acc rule: list_all2_induct)
  case Nil
  then show ?case by simp
next
  case (Cons x xs iq iqs)
  from Cons.prems obtain acc1 where a1: "absorb_sample n acc x = Inr acc1"
    and a2: "absorb_chunk n acc1 xs = Inr acc'"
    by (cases "absorb_sample n acc x") simp_all
  from Cons.hyps(1) obtain rs where
    rs: "gather (map (\<lambda>(j, t). ask j (fst iq) t (snd iq)) (enumerate 0 ts)) = Inr rs"
    and x: "x = map (\<lambda>(resp, c). (resp, c, 1000)) rs"
    unfolding answered_def by (elim exE conjE)
  have "\<exists>row. candidate_preds ask n ts (fst iq) (snd iq) = Inr row \<and>
               all_preds acc1 = all_preds acc @ [row] \<and>
               bool_pred_returned acc1 = bool_pred_returned acc"
    using a1 rs unfolding x by (rule absorb_sample_Inr)
  then obtain row where
    row: "candidate_preds ask n ts (fst iq) (snd iq) = Inr row"
    and p1: "all_preds acc1 = all_preds acc @ [row]"
    and b1: "bool_pred_returned acc1 = bool_pred_returned acc"
    by (elim exE conjE)
  from Cons.IH[OF a2] obtain rows where
    p2: "all_preds acc' = all_preds acc1 @ rows"
    and b2: "bool_pred_returned acc' = bool_pred_returned acc1"
    and r2: "map Inr rows = map (\<lambda>(i, q). candidate_preds ask n ts i q) iqs"
    by (elim exE conjE)
  have m: "map Inr (row # rows) = map (\<lambda>(i, q). candidate_preds ask n ts i q) (iq # iqs)"
    using row r2 by (simp add: case_prod_beta)
  have p: "all_preds acc' = all_preds acc @ (row # rows)"
    using p1 p2 by simp
  have b: "bool_pred_returned acc' = bool_pred_returned acc"
    using b1 b2 by simp
  show ?case
    by (rule exI[of _ "row # rows"]) (simp only: p b m simp_thms)
qed

lemma generate_concurrently_answered:
  assumes "snd (generate_concurrently ask off ts qs) = Inr res"
  shows "list_all2 (answered ask ts) res (numbered off qs)"
proof (rule list_all2_all_nthI)
  show "length res = length (numbered off qs)"
    using generate_concurrently_Inr(1)[OF assms] by (simp add: numbered_def)
next
  fix k assume "k < length res"
  then have k: "k < length qs" using generate_concurrently_Inr(1)[OF assms] by simp
  then have "numbered off qs ! k = (off + k, qs ! k)"
    by (simp add: numbered_def nth_enumerate_eq)
  then show "answered ask ts (res ! k) (numbered off qs ! k)"
    using generate_concurrently_Inr(2)[OF assms k] by (simp add: answered_def)
qed

lemma predict_loop_Inr:
  assumes "snd (predict_loop ask n ts cs acc) = Inr acc'"
  shows "\<exists>rows. all_preds acc' = all_preds acc @ rows \<and>
           bool_pred_returned acc' = bool_pred_returned acc @ replicate (length rows) 1 \<and>
           map Inr rows =
             map (\<lambda>(i, q). candidate_preds ask n ts i q)
               (concat (map (\<lambda>(off, chunk). numbered off chunk) cs))"
  using assms
proof (induction cs arbitrary: acc)
  case Nil
  then show ?case by simp
next
  case (Cons c cs)
  obtain off chunk where c: "c = (off, chunk)" by (cases c)
  obtain evs g where g: "generate_concurrently ask off ts chunk = (evs, g)"
    by (cases "generate_concurrently ask off ts chunk")
  have "\<exists>res. g = Inr res"
    using Cons.prems by (cases g) (simp_all add: c g)
  then obtain res where res: "g = Inr res" ..
  define acc0 where "acc0 = acc\<lparr>bool_pred_returned := bool_pred_returned acc @ map (\<lambda>x. 1) res\<rparr>"
  have "\<exists>acc1. absorb_chunk n acc0 res = Inr acc1"
    using Cons.prems by (cases "absorb_chunk n acc0 res") (simp_all add: c g res acc0_def)
  then obtain acc1 where a1: "absorb_chunk n acc0 res = Inr acc1" ..
  have rest: "snd (predict_loop ask n ts cs acc1) = Inr acc'"
    using Cons.prems a1
    by (cases "predict_loop ask n ts cs acc1") (simp add: c g res acc0_def)
  have "snd (generate_concurrently ask off ts chunk) = Inr res"
    by (simp add: g res)
  then have ans: "list_all2 (answered ask ts) res (numbered off chunk)"
    by (rule generate_concurrently_answered)
  from absorb_chunk_Inr[OF ans a1] obtain rows1 where
    p1: "all_preds acc1 = all_preds acc0 @ rows1"
    and b1: "bool_pred_returned acc1 = bool_pred_returned acc0"
    and r1: "map Inr rows1 = map (\<lambda>(i, q). candidate_preds ask n ts i q) (numbered off chunk)"
    by (elim exE conjE)
  from Cons.IH[OF rest] obtain rows2 where
    p2: "all_preds acc' = all_preds acc1 @ rows2"
    and b2: "bool_pred_returned acc' = bool_pred_returned acc1 @ replicate (length rows2) 1"
    and r2: "map Inr rows2 =
             map (\<lambda>(i, q). candidate_preds ask n ts i q)
               (concat (map (\<lambda>(off, chunk). numbered off chunk) cs))"
    by (elim exE conjE)
  have "length (map Inr rows1 :: (py_error + pyfloat list) list) = length (numbered off chunk)"
    by (simp only: r1 length_map)
  then have len: "length rows1 = length res"
    using list_all2_lengthD[OF ans] by simp
  have p: "all_preds acc' = all_preds acc @ (rows1 @ rows2)"
    using p1 p2 by (simp add: acc0_def)
  have b: "bool_pred_returned acc' =
           bool_pred_returned acc @ replicate (length (rows1 @ rows2)) 1"
    using b1 b2 len by (simp add: acc0_def replicate_add map_replicate_const)
  have m: "map Inr (rows1 @ rows2) =
             map (\<lambda>(i, q). candidate_preds ask n ts i q)
               (concat (map (\<lambda>(off, chunk). numbered off chunk) (c # cs)))"
    using r1 r2 by (simp add: c)
  show ?case
    by (rule exI[of _ "rows1 @ rows2"]) (simp only: p b m simp_thms)
qed






lemma predict_success_rate:
  assumes "snd (predict ask n_gens ts qs) = Inr r"
  shows "success_rate r = 1"
proof -
  define acc0 where
    "acc0 = \<lparr>all_preds = [], acc_cost = 0, acc_tokens = 0, bool_pred_returned = []\<rparr>"
  obtain evs out where lp: "predict_loop ask n_gens ts (chunks_of qs) acc0 = (evs, out)"
    by (cases "predict_loop ask n_gens ts (chunks_of qs) acc0")
  from assms lp obtain acc where out: "out = Inr acc"
    unfolding predict_def acc0_def[symmetric] by (cases out) auto
  from assms lp out have ne: "length (bool_pred_returned acc) \<noteq> 0"
    and r: "success_rate r =
            real (sum_list (bool_pred_returned acc)) / real (length (bool_pred_returned acc))"
    unfolding predict_def acc0_def[symmetric]
    by (auto split: if_splits sum.splits)
  from predict_loop_Inr[of ask n_gens ts "chunks_of qs" acc0 acc] lp out
  obtain rows :: "pyfloat list list" where
    "bool_pred_returned acc = bool_pred_returned acc0 @ replicate (length rows) (1::nat)"
    by auto
  then have b: "bool_pred_returned acc = replicate (length rows) (1::nat)"
    by (simp add: acc0_def)
  have "sum_list (replicate (length rows) (1::nat)) = length rows"
    by (simp add: sum_list_replicate)
  then show ?thesis using r ne b by simp
qed

lemma generate_concurrently_log:
  "Acquire \<notin> set (fst (generate_concurrently ask off ts qs))"
  by (auto simp: generate_concurrently_def async_generate_def Let_def)

lemma predict_loop_log:
  "Acquire \<notin> set (fst (predict_loop ask n ts cs acc))"
proof (induction cs arbitrary: acc)
  case Nil
  then show ?case by simp
next
  case (Cons c cs)
  obtain off chunk where c: "c = (off, chunk)" by (cases c)
  obtain evs g where g: "generate_concurrently ask off ts chunk = (evs, g)"
    by (cases "generate_concurrently ask off ts chunk")
  have evs: "Acquire \<notin> set evs"
    using generate_concurrently_log[of ask off ts chunk] g by simp
  show ?case
    using evs Cons.IH
    by (auto simp: c g split: sum.splits prod.splits) (metis fst_conv)
qed

lemma predict_log: "Acquire \<notin> set (fst (predict ask n ts qs))"
proof -
  obtain evs out where lp: "predict_loop ask n ts (chunks_of qs)
      \<lparr>all_preds = [], acc_cost = 0, acc_tokens = 0, bool_pred_returned = []\<rparr> = (evs, out)"
    by (cases "predict_loop ask n ts (chunks_of qs)
      \<lparr>all_preds = [], acc_cost = 0, acc_tokens = 0, bool_pred_returned = []\<rparr>")
  have "Acquire \<notin> set evs"
    using predict_loop_log[of ask n ts "chunks_of qs"] lp by (metis fst_conv)
  then show ?thesis
    unfolding predict_def lp by (cases out) auto
qed

text \<open>
  C5 (the code departs from the claim). The claim: the success rate is the number of
  candidates with at least one non-missing raw response over the number of candidates, so
  \<open>(n - 1) / n\<close> when one candidate of \<open>n\<close> has none. Here the second of two candidates
  gets no usable reply (its estimate is NaN), and the success rate is 1, not 1/2: the
  test \<^verbatim>\<open>x is not None\<close> is made on lists, which are never \<^verbatim>\<open>None\<close>
  (\<open>predict_success_rate\<close>: the rate is 1 in every round that returns).
\<close>

theorem predict_success_rate_failing:
  "snd (predict silent_on_1 3 [()] [''x: 1'', ''x: 2'']) =
     Inr \<lparr>mean_probs = [Fin 1, NaN], success_rate = 1, tot_cost = 1 / 2, tot_tokens = 2000\<rparr>"
  by code_simp

text \<open>
  C8 (the code departs from the claim). The claim: every query sent to the model is
  preceded by an acquisition on the surrogate's rate limiter. The rate limiter is built
  by the constructor and never used: the log of a round with one template and one
  candidate is the query alone (\<open>predict_log\<close>: no round ever logs an acquisition).
\<close>

theorem query_without_acquire:
  "fst (predict silent_on_1 3 [()] [''x: 1'']) = [Query 0 0] \<and>
   \<not> acquired_before False (fst (predict silent_on_1 3 [()] [''x: 1'']))"
  by code_simp

section \<open>Theorems: warping and selection\<close>


lemma update_present:
  "distinct (map fst r) \<Longrightarrow> map_of r k = Some x \<Longrightarrow>
   AList.update k v r = map (\<lambda>(k', y). if k' = k then (k', v) else (k', y)) r"
proof (induction r)
  case Nil
  then show ?case by simp
next
  case (Cons p r)
  obtain k0 y0 where p: "p = (k0, y0)" by (cases p)
  show ?case
  proof (cases "k0 = k")
    case True
    have "k \<notin> fst ` set r" using Cons.prems(1) True p by simp
    then have "map (\<lambda>(k', y). if k' = k then (k', v) else (k', y)) r = r"
      by (intro map_idI) (auto simp: rev_image_eqI)
    then show ?thesis using True p by simp
  next
    case False
    then show ?thesis using Cons p by simp
  qed
qed

lemma map_of_distinct_entry:
  "distinct (map fst r) \<Longrightarrow> (k, x) \<in> set r \<Longrightarrow> map_of r k = Some x"
  by simp

lemma scale_config_map:
  assumes "distinct (map fst cs)" and "distinct (map fst r)"
    and "\<And>k c. (k, c) \<in> set cs \<Longrightarrow> dist_type c = ''log'' \<Longrightarrow>
            \<exists>v. map_of r k = Some v \<and> op v = Inr (f v)"
  shows "scale_config op cs r =
         Inr (map (\<lambda>(k, v). if flagged cs k then (k, f v) else (k, v)) r)"
  using assms
proof (induction cs arbitrary: r)
  case Nil
  then show ?case by (simp add: flagged_def)
next
  case (Cons p cs)
  obtain k c where p: "p = (k, c)" by (cases p)
  have knot: "map_of cs k = None"
    using Cons.prems(1) p by (simp add: map_of_eq_None_iff)
  have fl: "flagged ((k, c) # cs) k' = (if k' = k then dist_type c = ''log'' else flagged cs k')"
    for k'
    by (auto simp: flagged_def)
  have flk: "\<not> flagged cs k" using knot by (simp add: flagged_def)
  show ?case
  proof (cases "dist_type c = ''log''")
    case False
    have "scale_config op cs r =
          Inr (map (\<lambda>(k, v). if flagged cs k then (k, f v) else (k, v)) r)"
      using Cons.prems by (intro Cons.IH) (auto simp: p)
    moreover have "map (\<lambda>(k, v). if flagged cs k then (k, f v) else (k, v)) r =
                   map (\<lambda>(k', v). if flagged ((k, c) # cs) k' then (k', f v) else (k', v)) r"
      using False flk by (intro map_cong refl) (auto simp: fl)
    ultimately show ?thesis using False by (simp add: p)
  next
    case True
    from Cons.prems(3)[of k c] True obtain v where v: "map_of r k = Some v" "op v = Inr (f v)"
      by (auto simp: p)
    define r1 where "r1 = map (\<lambda>(k', y). if k' = k then (k', f v) else (k', y)) r"
    have upd: "AList.update k (f v) r = r1"
      unfolding r1_def using Cons.prems(2) v(1) by (rule update_present)
    have fst1: "map fst r1 = map fst r"
      unfolding r1_def by (simp add: case_prod_beta o_def)
    have d1: "distinct (map fst r1)" using Cons.prems(2) fst1 by simp
    have other: "map_of r1 k' = map_of r k'" if "k' \<noteq> k" for k'
      unfolding r1_def using that by (induction r) auto
    have pre: "\<exists>v. map_of r1 k' = Some v \<and> op v = Inr (f v)"
      if "(k', c') \<in> set cs" "dist_type c' = ''log''" for k' c'
    proof -
      have "k' \<noteq> k" using that(1) Cons.prems(1) p by (auto simp: rev_image_eqI)
      then show ?thesis using Cons.prems(3)[of k' c'] that other by (auto simp: p)
    qed
    have ih: "scale_config op cs r1 =
          Inr (map (\<lambda>(k, v). if flagged cs k then (k, f v) else (k, v)) r1)"
      using Cons.prems(1) d1 pre by (intro Cons.IH) (auto simp: p)
    have "map (\<lambda>(k, v). if flagged cs k then (k, f v) else (k, v)) r1 =
          map (\<lambda>(k', y). if flagged ((k, c) # cs) k' then (k', f y) else (k', y)) r"
      unfolding r1_def map_map
    proof (intro map_cong refl)
      fix e assume e: "e \<in> set r"
      obtain k' y where ky: "e = (k', y)" by (cases e)
      show "((\<lambda>(k, v). if flagged cs k then (k, f v) else (k, v)) \<circ>
             (\<lambda>(k', y). if k' = k then (k', f v) else (k', y))) e =
            (case e of (k', y) \<Rightarrow> if flagged ((k, c) # cs) k' then (k', f y) else (k', y))"
      proof (cases "k' = k")
        case True
        have "map_of r k = Some y" using e ky True Cons.prems(2) by simp
        then have "y = v" using v(1) by simp
        then show ?thesis using True flk \<open>dist_type c = ''log''\<close> by (simp add: ky fl)
      next
        case False
        then show ?thesis by (simp add: ky fl)
      qed
    qed
    then show ?thesis using True v upd ih by (simp add: p)
  qed
qed


lemma scale_table_map2:
  "(\<And>r. r \<in> set t \<Longrightarrow> scale_config op cs (h r) = Inr (g r)) \<Longrightarrow>
   scale_table op cs (map h t) = Inr (map g t)"
  by (induction t) simp_all

lemma scale_table_map:
  "(\<And>r. r \<in> set t \<Longrightarrow> scale_config op cs r = Inr (g r)) \<Longrightarrow>
   scale_table op cs t = Inr (map g t)"
  using scale_table_map2[of t op cs "\<lambda>r. r" g] by simp

lemma positive_np_log10: "positive_cell (Some v) \<Longrightarrow> np_log10 fm v = Inr (lg fm v)"
  by (cases "Some v" rule: positive_cell.cases) auto

lemma positive_cell_value: "positive_cell (Some v) \<Longrightarrow> 0 < cell_value v"
  by (cases "Some v" rule: positive_cell.cases) auto

lemma positive_lg_value:
  "positive_cell (Some v) \<Longrightarrow> lg fm v = F (Fin (log10_of fm (cell_value v)))"
  by (cases "Some v" rule: positive_cell.cases) auto

lemma accurate_pow10_lg:
  assumes "positive_cell (Some v)" and "accurate fm u (cell_value v)"
  shows "pow10 fm (lg fm v) = Inr (pw fm (lg fm v))"
proof -
  from assms(2) obtain z where "power_of_ten fm (log10_of fm (cell_value v)) = Inr z"
    by (auto simp: accurate_def split: sum.splits)
  then show ?thesis by (simp add: positive_lg_value[OF assms(1)])
qed

lemma tolerance_bound:
  assumes x: "0 < x" and u: "0 \<le> u" "u \<le> 1"
    and l: "\<bar>l - log 10 x\<bar> \<le> u * \<bar>log 10 x\<bar>"
    and z: "\<bar>z - 10 powr l\<bar> \<le> u * 10 powr l"
  shows "\<bar>z - x\<bar> \<le> tolerance u x"
proof -
  define a where "a = 10 powr (u * \<bar>log 10 x\<bar>)"
  define p where "p = 10 powr (l - log 10 x)"
  have xp: "x = 10 powr log 10 x" using x by simp
  have pl: "10 powr l = x * p"
  proof -
    have "10 powr l = 10 powr (log 10 x + (l - log 10 x))" by simp
    also have "\<dots> = 10 powr log 10 x * 10 powr (l - log 10 x)" by (rule powr_add)
    finally show ?thesis using xp by (simp add: p_def)
  qed
  have a1: "1 \<le> a"
  proof -
    have "0 \<le> u * \<bar>log 10 x\<bar>" using u(1) by simp
    then have "10 powr 0 \<le> 10 powr (u * \<bar>log 10 x\<bar>)" by (intro powr_mono) simp_all
    then show ?thesis by (simp add: a_def)
  qed
  have a0: "0 < a" using a1 by linarith
  have p0: "0 < p" by (simp add: p_def)
  have pa: "p \<le> a"
  proof -
    have "l - log 10 x \<le> u * \<bar>log 10 x\<bar>" using l by linarith
    then show ?thesis unfolding p_def a_def by (intro powr_mono) simp_all
  qed
  have ap: "1 / a \<le> p"
  proof -
    have "- (u * \<bar>log 10 x\<bar>) \<le> l - log 10 x" using l by linarith
    then have "10 powr (- (u * \<bar>log 10 x\<bar>)) \<le> 10 powr (l - log 10 x)"
      by (intro powr_mono) simp_all
    then show ?thesis by (simp add: p_def a_def powr_minus divide_inverse)
  qed
  have zu: "z \<le> (1 + u) * (x * p)" and zl: "(1 - u) * (x * p) \<le> z"
    using z unfolding pl by (simp_all add: abs_le_iff algebra_simps)
  have xpa: "x * p \<le> x * a" using pa x by simp
  have xap: "x * (1 / a) \<le> x * p" using ap x by (intro mult_left_mono) simp_all
  have upper: "z - x \<le> x * ((1 + u) * a - 1)"
  proof -
    have "(1 + u) * (x * p) \<le> (1 + u) * (x * a)"
      by (rule mult_left_mono[OF xpa]) (use u in simp)
    then have "z \<le> (1 + u) * (x * a)" using zu by linarith
    then show ?thesis by (simp add: algebra_simps)
  qed
  have key: "1 - (1 - u) / a \<le> (1 + u) * a - 1"
  proof -
    have "0 \<le> (a - 1) * ((1 + u) * a - (1 - u))"
    proof (rule mult_nonneg_nonneg)
      show "0 \<le> a - 1" using a1 by simp
      have "1 + u \<le> (1 + u) * a" using a1 u by simp
      then show "0 \<le> (1 + u) * a - (1 - u)" using u by linarith
    qed
    then have "2 * a \<le> (1 + u) * a * a + (1 - u)" by (simp add: algebra_simps)
    then have "(2 * a) / a \<le> ((1 + u) * a * a + (1 - u)) / a"
      using a0 by (intro divide_right_mono) simp_all
    then have "2 \<le> (1 + u) * a + (1 - u) / a"
      using a0 by (simp add: add_divide_distrib)
    then show ?thesis by linarith
  qed
  have lower: "x - z \<le> x * ((1 + u) * a - 1)"
  proof -
    have "(1 - u) * (x * (1 / a)) \<le> (1 - u) * (x * p)"
      by (rule mult_left_mono[OF xap]) (use u in simp)
    then have "x - z \<le> x - (1 - u) * (x * (1 / a))" using zl by linarith
    also have "\<dots> = x * (1 - (1 - u) / a)" by (simp add: algebra_simps)
    also have "\<dots> \<le> x * ((1 + u) * a - 1)"
      by (rule mult_left_mono[OF key]) (use x in simp)
    finally show ?thesis .
  qed
  show ?thesis unfolding tolerance_def a_def[symmetric] using upper lower by (simp add: abs_le_iff)
qed

lemma accurate_close:
  assumes p: "positive_cell (Some v)" and a: "accurate fm u (cell_value v)"
    and u: "0 \<le> u" "u \<le> 1"
  shows "close_to u v (pw fm (lg fm v))"
proof -
  let ?x = "cell_value v"
  have x: "0 < ?x" by (rule positive_cell_value[OF p])
  from a obtain z where z: "power_of_ten fm (log10_of fm ?x) = Inr z"
    and zb: "\<bar>z - 10 powr log10_of fm ?x\<bar> \<le> u * 10 powr log10_of fm ?x"
    by (auto simp: accurate_def split: sum.splits)
  from a have l: "\<bar>log10_of fm ?x - log 10 ?x\<bar> \<le> u * \<bar>log 10 ?x\<bar>"
    by (simp add: accurate_def)
  have "\<bar>z - ?x\<bar> \<le> tolerance u ?x" by (rule tolerance_bound[OF x u l zb])
  then show ?thesis by (simp add: positive_lg_value[OF p] z)
qed


lemma positive_log_fieldsD:
  "positive_log_fields cs r \<Longrightarrow> (k, c) \<in> set cs \<Longrightarrow> dist_type c = ''log'' \<Longrightarrow>
   positive_cell (map_of r k)"
  by (auto simp: positive_log_fields_def list_all_iff)

lemma accurate_log_fieldsD:
  "accurate_log_fields fm u cs r \<Longrightarrow> (k, c) \<in> set cs \<Longrightarrow> dist_type c = ''log'' \<Longrightarrow>
   map_of r k = Some v \<Longrightarrow> accurate fm u (cell_value v)"
  by (auto simp: accurate_log_fields_def list_all_iff)

lemma positive_cell_Some: "positive_cell m \<Longrightarrow> \<exists>v. m = Some v"
  by (cases m rule: positive_cell.cases) auto

lemma flagged_mem:
  "distinct (map fst cs) \<Longrightarrow> flagged cs k \<Longrightarrow> \<exists>c. (k, c) \<in> set cs \<and> dist_type c = ''log''"
  by (auto simp: flagged_def split: option.splits dest: map_of_SomeD)

lemma warp_row:
  assumes "distinct (map fst cs)" "distinct (map fst r)" "positive_log_fields cs r"
  shows "scale_config (np_log10 fm) cs r =
         Inr (map (\<lambda>(k, v). if flagged cs k then (k, lg fm v) else (k, v)) r)"
proof (rule scale_config_map[OF assms(1,2)])
  fix k c assume kc: "(k, c) \<in> set cs" "dist_type c = ''log''"
  have pos: "positive_cell (map_of r k)" using positive_log_fieldsD[OF assms(3) kc] .
  then obtain v where v: "map_of r k = Some v" using positive_cell_Some by blast
  then show "\<exists>v. map_of r k = Some v \<and> np_log10 fm v = Inr (lg fm v)"
    using pos positive_np_log10 by auto
qed

lemma unwarp_row:
  assumes "distinct (map fst cs)" "distinct (map fst r)" "positive_log_fields cs r"
    and "accurate_log_fields fm u cs r"
  shows "scale_config (pow10 fm) cs
           (map (\<lambda>(k, v). if flagged cs k then (k, lg fm v) else (k, v)) r) =
         Inr (map (\<lambda>(k, v). if flagged cs k then (k, pw fm (lg fm v)) else (k, v)) r)"
proof -
  let ?w = "map (\<lambda>(k, v). if flagged cs k then (k, lg fm v) else (k, v)) r"
  have fstw: "map fst ?w = map fst r" by (simp add: case_prod_beta o_def)
  have dw: "distinct (map fst ?w)" by (subst fstw) (rule assms(2))
  have look: "map_of ?w k = map_option (\<lambda>v. if flagged cs k then lg fm v else v) (map_of r k)"
    for k by (induction r) auto
  have step: "scale_config (pow10 fm) cs ?w =
        Inr (map (\<lambda>(k, v). if flagged cs k then (k, pw fm v) else (k, v)) ?w)"
  proof (rule scale_config_map[OF assms(1) dw])
    fix k c assume kc: "(k, c) \<in> set cs" "dist_type c = ''log''"
    have fl: "flagged cs k" using kc assms(1) by (simp add: flagged_def)
    have pos: "positive_cell (map_of r k)" using positive_log_fieldsD[OF assms(3) kc] .
    then obtain v where v: "map_of r k = Some v" using positive_cell_Some by blast
    have acc: "accurate fm u (cell_value v)" by (rule accurate_log_fieldsD[OF assms(4) kc v])
    have "map_of ?w k = Some (lg fm v)" using look[of k] v fl by simp
    moreover have "pow10 fm (lg fm v) = Inr (pw fm (lg fm v))"
      using pos v accurate_pow10_lg[OF _ acc] by simp
    ultimately show "\<exists>v. map_of ?w k = Some v \<and> pow10 fm v = Inr (pw fm v)" by blast
  qed
  have "map (\<lambda>(k, v). if flagged cs k then (k, pw fm v) else (k, v)) ?w =
        map (\<lambda>(k, v). if flagged cs k then (k, pw fm (lg fm v)) else (k, v)) r"
    unfolding map_map by (intro map_cong refl) (auto simp: case_prod_beta)
  then show ?thesis using step by simp
qed

lemma list_all2_map_same:
  "(\<And>x. x \<in> set xs \<Longrightarrow> P x (f x)) \<Longrightarrow> list_all2 P xs (map f xs)"
  by (induction xs) simp_all

text \<open>
  Claim C3, amended. For a table whose log-scaled fields are all positive numbers at which
  the two float operations are accurate to a relative error \<open>u\<close> and the power is in
  range, warping succeeds and unwarping the warped table succeeds. Both keep the names and
  leave the fields that are not flagged log-scale as they are, and a log-scaled field
  \<open>x\<close> comes back as a float within \<open>x * ((1 + u) * 10 powr (u * \<bar>log 10 x\<bar>) - 1)\<close> of \<open>x\<close>.
\<close>

theorem warp_unwarp_tolerance:
  assumes "well_formed cs t" and "list_all (positive_log_fields cs) t"
    and "list_all (accurate_log_fields fm u cs) t" and "0 \<le> u" and "u \<le> 1"
  shows "\<exists>w r. warp_candidate_points fm cs t = Inr w \<and>
           unwarp_candidate_points fm cs w = Inr r \<and>
           list_all2 (list_all2 (\<lambda>(k, v) (k', v'). k' = k \<and> (flagged cs k \<or> v' = v))) t w \<and>
           list_all2 (list_all2 (\<lambda>(k, v) (k', v'). k' = k \<and>
              (if flagged cs k then close_to u v v' else v' = v))) t r"
proof -
  let ?g = "map (\<lambda>(k, v). if flagged cs k then (k, lg fm v) else (k, v))"
  let ?h = "map (\<lambda>(k, v). if flagged cs k then (k, pw fm (lg fm v)) else (k, v))"
  have dcs: "distinct (map fst cs)" using assms(1) by (simp add: well_formed_def)
  have dr: "distinct (map fst r)" if "r \<in> set t" for r
    using assms(1) that by (simp add: well_formed_def list_all_iff)
  have pos: "positive_log_fields cs r" if "r \<in> set t" for r
    using assms(2) that by (simp add: list_all_iff)
  have acc: "accurate_log_fields fm u cs r" if "r \<in> set t" for r
    using assms(3) that by (simp add: list_all_iff)
  have w: "warp_candidate_points fm cs t = Inr (map ?g t)"
    unfolding warp_candidate_points_def
    by (rule scale_table_map) (simp add: warp_row dcs dr pos)
  have u: "unwarp_candidate_points fm cs (map ?g t) = Inr (map ?h t)"
    unfolding unwarp_candidate_points_def
    by (rule scale_table_map2) (simp add: unwarp_row[where u = u] dcs dr pos acc)
  have rw: "list_all2 (list_all2 (\<lambda>(k, v) (k', v'). k' = k \<and> (flagged cs k \<or> v' = v)))
              t (map ?g t)"
    by (intro list_all2_map_same) (auto split: if_splits)
  have rr: "list_all2 (list_all2 (\<lambda>(k, v) (k', v'). k' = k \<and>
              (if flagged cs k then close_to u v v' else v' = v))) t (map ?h t)"
  proof (intro list_all2_map_same)
    fix r e assume r: "r \<in> set t" and e: "e \<in> set r"
    obtain k y where ky: "e = (k, y)" by (cases e)
    show "(case e of (k, v) \<Rightarrow> \<lambda>(k', v'). k' = k \<and>
              (if flagged cs k then close_to u v v' else v' = v))
           (case e of (k, v) \<Rightarrow> if flagged cs k then (k, pw fm (lg fm v)) else (k, v))"
    proof (cases "flagged cs k")
      case True
      then obtain c where kc: "(k, c) \<in> set cs" "dist_type c = ''log''"
        using flagged_mem[OF dcs] by blast
      have m: "map_of r k = Some y" using e ky dr[OF r] by simp
      then have p: "positive_cell (Some y)" using positive_log_fieldsD[OF pos[OF r] kc] by simp
      have a: "accurate fm u (cell_value y)" by (rule accurate_log_fieldsD[OF acc[OF r] kc m])
      have "close_to u y (pw fm (lg fm y))" by (rule accurate_close[OF p a assms(4,5)])
      then show ?thesis using True by (simp add: ky)
    next
      case False
      then show ?thesis by (simp add: ky)
    qed
  qed
  show ?thesis
    by (intro exI[of _ "map ?g t"] exI[of _ "map ?h t"] conjI w u rw rr)
qed

subsection \<open>Selection\<close>


lemma argmax_loop_nan:
  "mp \<noteq> NaN \<Longrightarrow> NaN \<in> set xs \<Longrightarrow>
   i \<le> argmax_loop mp mi i xs \<and> xs ! (argmax_loop mp mi i xs - i) = NaN"
proof (induction xs arbitrary: mp mi i)
  case Nil
  then show ?case by simp
next
  case (Cons x xs)
  show ?case
  proof (cases "x = NaN")
    case True
    then show ?thesis by simp
  next
    case False
    then have mem: "NaN \<in> set xs" using Cons.prems(2) by auto
    show ?thesis
    proof (cases "fle x mp")
      case True
      have "Suc i \<le> argmax_loop mp mi (Suc i) xs \<and>
            xs ! (argmax_loop mp mi (Suc i) xs - Suc i) = NaN"
        by (rule Cons.IH[OF Cons.prems(1) mem])
      then show ?thesis using True by (simp add: nth_Cons' Suc_le_eq)
    next
      case nle: False
      have "Suc i \<le> argmax_loop x i (Suc i) xs \<and>
            xs ! (argmax_loop x i (Suc i) xs - Suc i) = NaN"
        by (rule Cons.IH[OF False mem])
      then show ?thesis using nle False by (simp add: nth_Cons' Suc_le_eq)
    qed
  qed
qed

lemma np_argmax_nan:
  assumes "NaN \<in> set ps" and "np_argmax ps = Inr i"
  shows "ps ! i = NaN"
proof (cases ps)
  case Nil
  then show ?thesis using assms by simp
next
  case (Cons x xs)
  show ?thesis
  proof (cases "x = NaN")
    case True
    then show ?thesis using assms Cons by simp
  next
    case False
    then have "NaN \<in> set xs" using assms(1) Cons by auto
    then have "1 \<le> argmax_loop x 0 1 xs \<and> xs ! (argmax_loop x 0 1 xs - 1) = NaN"
      by (rule argmax_loop_nan[OF False])
    then show ?thesis using assms(2) Cons False by (auto simp: nth_Cons')
  qed
qed

text \<open>
  Claim C1 says that \<^verbatim>\<open>select_query_point\<close> returns the candidate with the highest
  predicted probability, a candidate whose probability is NaN being passed over. The code
  takes \<^verbatim>\<open>np.argmax\<close> of the probabilities, and \<^verbatim>\<open>np.argmax\<close> answers the first NaN
  (\<open>np_argmax_nan\<close>). With three candidates whose probabilities come out as 0.3, NaN
  and 0.9 (the reply to the second candidate has no number in it), the code selects the
  second candidate, not the third.
\<close>

theorem select_query_point_picks_nan:
  "select_query_point fm linear_x (evaluate_candidate_points unparseable_on_1 1 one_template)
     [] [] [[(''x'', F (Fin 1))], [(''x'', F (Fin 2))], [(''x'', F (Fin 3))]] =
   Inr ([(''x'', F (Fin 2))], [Fin (3 / 10), NaN, Fin (9 / 10)], 0)"
proof -
  let ?c = "[[(''x'', F (Fin 1))], [(''x'', F (Fin 2))], [(''x'', F (Fin 3))]]"
  have w0: "warp_candidate_points fm linear_x [] = Inr []"
    by (simp add: warp_candidate_points_def)
  have w: "warp_candidate_points fm linear_x ?c = Inr ?c"
    by (simp add: warp_candidate_points_def linear_x_def)
  have u: "unwarp_candidate_points fm linear_x ?c = Inr ?c"
    by (simp add: unwarp_candidate_points_def linear_x_def)
  have e: "evaluate_candidate_points unparseable_on_1 1 one_template [] [] ?c =
           Inr ([Fin (3 / 10), NaN, Fin (9 / 10)], 0)"
    by code_simp
  have a: "np_argmax [Fin (3 / 10), NaN, Fin (9 / 10)] = Inr 1"
    by simp
  show ?thesis
    unfolding select_query_point_def w0 w e a u sum.case prod.case
    by (simp add: iloc_def)
qed

section \<open>Theorems: the sampler\<close>









lemma after_trial_warmed_up:
  assumes "warmed_up self pool calls"
  shows "\<exists>calls'. warmed_up (snd (after_trial cls self params state vals)) pool calls' \<and>
           n_initial_samples (snd (after_trial cls self params state vals)) =
             n_initial_samples self \<and>
           Sample_configurations \<notin> set calls' - set calls"
  using assms
  by (auto simp add: after_trial_def warmed_up_def Let_def split: option.splits sum.splits)

text \<open>
  Claim C10: with an empty search space \<^verbatim>\<open>sample_relative\<close> returns the empty assignment
  and the sampler is left as it was. The sampler record holds the observed tables, the
  surrogate with the calls made on it and the state of the random sampler, so no value is
  drawn and no call is made on the surrogate.
\<close>

theorem sample_relative_empty_space:
  "sample_relative cls draw self direction number [] = (Inr [], self)"
  by (simp add: sample_relative_def)




end
